theory Spec2Isabelle
  imports Complex_Main
begin

section \<open>Values\<close>

text \<open>
  The library is generic in its element type \<open>T\<close>. Operations that never look inside an
  element are modelled polymorphically. Operations that compare an element with
  \<^verbatim>\<open>undefined\<close>, negate it (\<^verbatim>\<open>!element\<close>) or compare two elements with \<^verbatim>\<open>===\<close> are modelled
  over \<open>jsval\<close>, the JavaScript values an \<^verbatim>\<open>Iterable<T>\<close> can deliver.

  A \<^verbatim>\<open>number\<close> is an IEEE double. Comparison, \<^verbatim>\<open>Math.max\<close> and \<^verbatim>\<open>Math.min\<close> never round, so a
  finite double is represented by the real it denotes; the two zeros are one value here.
  Objects are represented by their identity.
\<close>

datatype number = NaN | NegInfinity | Finite real | Infinity

datatype jsval =
    Undefined
  | Null
  | Boolean bool
  | Number number
  | Str string
  | Object nat

abbreviation int_val :: "int \<Rightarrow> jsval" where
  "int_val k \<equiv> Number (Finite (real_of_int k))"

text \<open>\<^verbatim>\<open>Number.MIN_VALUE\<close> is \<open>2\<^sup>-\<^sup>1\<^sup>0\<^sup>7\<^sup>4\<close>, \<^verbatim>\<open>Number.MAX_VALUE\<close> is \<open>(2\<^sup>5\<^sup>3 - 1) * 2\<^sup>9\<^sup>7\<^sup>1\<close>.\<close>

definition MIN_VALUE :: number where
  "MIN_VALUE = Finite (1 / 2 ^ 1074)"

definition MAX_VALUE :: number where
  "MAX_VALUE = Finite ((2 ^ 53 - 1) * 2 ^ 971)"

text \<open>The relational operator \<^verbatim>\<open><\<close> on numbers: false as soon as one side is \<^verbatim>\<open>NaN\<close>.\<close>

fun lessThan_num :: "number \<Rightarrow> number \<Rightarrow> bool" where
  "lessThan_num NaN y = False"
| "lessThan_num x NaN = False"
| "lessThan_num Infinity y = False"
| "lessThan_num x NegInfinity = False"
| "lessThan_num NegInfinity y = True"
| "lessThan_num x Infinity = True"
| "lessThan_num (Finite a) (Finite b) = (a < b)"

text \<open>\<^verbatim>\<open>Math.max(a, b)\<close> and \<^verbatim>\<open>Math.min(a, b)\<close>: \<^verbatim>\<open>NaN\<close> if either argument is, else the larger
  (smaller) one.\<close>

definition Math_max :: "number \<Rightarrow> number \<Rightarrow> number" where
  "Math_max a b = (if a = NaN \<or> b = NaN then NaN else if lessThan_num a b then b else a)"

definition Math_min :: "number \<Rightarrow> number \<Rightarrow> number" where
  "Math_min a b = (if a = NaN \<or> b = NaN then NaN else if lessThan_num b a then b else a)"

text \<open>\<^verbatim>\<open>a === b\<close>: \<^verbatim>\<open>NaN\<close> differs from itself, objects are compared by identity.\<close>

definition strictEquals :: "jsval \<Rightarrow> jsval \<Rightarrow> bool" where
  "strictEquals a b = (a = b \<and> a \<noteq> Number NaN)"

text \<open>The truth value \<^verbatim>\<open>!\<close> negates: \<^verbatim>\<open>undefined\<close>, \<^verbatim>\<open>null\<close>, \<^verbatim>\<open>false\<close>, zero, \<^verbatim>\<open>NaN\<close> and the
  empty string are falsy.\<close>

fun ToBoolean :: "jsval \<Rightarrow> bool" where
  "ToBoolean Undefined = False"
| "ToBoolean Null = False"
| "ToBoolean (Boolean b) = b"
| "ToBoolean (Number n) = (n \<noteq> NaN \<and> n \<noteq> Finite 0)"
| "ToBoolean (Str s) = (s \<noteq> [])"
| "ToBoolean (Object r) = True"

text \<open>Every \<^verbatim>\<open>throw\<close> of the library throws a plain \<^verbatim>\<open>new Error(message)\<close>.\<close>

datatype error = Error string

section \<open>Default policy values\<close>

definition defaultPredicate :: "'a \<Rightarrow> bool" where
  "defaultPredicate e = True"

definition defaultEqualityComparer :: "jsval \<Rightarrow> jsval \<Rightarrow> bool" where
  "defaultEqualityComparer a b = strictEquals a b"

definition throwEmptySequence :: "error + 'a" where
  "throwEmptySequence = Inl (Error ''empty sequence'')"

section \<open>Terminal operations\<close>

text \<open>
  A terminal operation runs one \<^verbatim>\<open>for (let item of source)\<close> loop. Its source is given by
  the list of items that loop receives, in order; the loop is a recursion over that list,
  with the loop's local variables as arguments. A \<^verbatim>\<open>throw\<close> is the result \<open>Inl\<close>.
\<close>

fun contains :: "'a list \<Rightarrow> 'a \<Rightarrow> ('a \<Rightarrow> 'a \<Rightarrow> bool) \<Rightarrow> bool" where
  "contains [] v comparer = False"
| "contains (item # rest) v comparer =
     (if comparer item v then True else contains rest v comparer)"

fun count_loop :: "'a list \<Rightarrow> ('a \<Rightarrow> bool) \<Rightarrow> nat \<Rightarrow> nat" where
  "count_loop [] predicate n = n"
| "count_loop (item # rest) predicate n =
     (if predicate item then count_loop rest predicate (n + 1) else count_loop rest predicate n)"

definition count_linq :: "'a list \<Rightarrow> ('a \<Rightarrow> bool) \<Rightarrow> nat" where
  "count_linq source predicate = count_loop source predicate 0"

subsection \<open>elementAt\<close>

fun elementAtOrUndefined_loop :: "jsval list \<Rightarrow> int \<Rightarrow> nat \<Rightarrow> jsval" where
  "elementAtOrUndefined_loop [] idx currentIndex = Undefined"
| "elementAtOrUndefined_loop (item # rest) idx currentIndex =
     (if int currentIndex = idx then item
      else elementAtOrUndefined_loop rest idx (currentIndex + 1))"

definition elementAtOrUndefined :: "jsval list \<Rightarrow> int \<Rightarrow> jsval" where
  "elementAtOrUndefined source idx = elementAtOrUndefined_loop source idx 0"

definition elementAt :: "jsval list \<Rightarrow> int \<Rightarrow> error + jsval" where
  "elementAt source idx =
     (let element = elementAtOrUndefined source idx in
      if \<not> ToBoolean element then Inl (Error ''element not existed'') else Inr element)"

subsection \<open>first and last\<close>

fun firstOrUndefined :: "jsval list \<Rightarrow> (jsval \<Rightarrow> bool) \<Rightarrow> jsval" where
  "firstOrUndefined [] predicate = Undefined"
| "firstOrUndefined (item # rest) predicate =
     (if predicate item then item else firstOrUndefined rest predicate)"

definition first :: "jsval list \<Rightarrow> (jsval \<Rightarrow> bool) \<Rightarrow> error + jsval" where
  "first source predicate =
     (let result = firstOrUndefined source predicate in
      if strictEquals result Undefined then throwEmptySequence else Inr result)"

text \<open>
  \<^verbatim>\<open>lastOrUndefined\<close> tests \<^verbatim>\<open>source instanceof Array\<close>, so its source is either an array or
  another iterable, given by the items it delivers. The array loop runs \<open>i\<close> from
  \<open>length - 1\<close> down to \<open>0\<close>; the counter of the recursion is \<open>i + 1\<close>.
\<close>

datatype sequence = Array (items: "jsval list") | Iterable (items: "jsval list")

primrec lastOrUndefinedForArray_loop :: "jsval list \<Rightarrow> (jsval \<Rightarrow> bool) \<Rightarrow> nat \<Rightarrow> jsval" where
  "lastOrUndefinedForArray_loop source predicate 0 = Undefined"
| "lastOrUndefinedForArray_loop source predicate (Suc i) =
     (let item = source ! i in
      if predicate item then item else lastOrUndefinedForArray_loop source predicate i)"

definition lastOrUndefinedForArray :: "jsval list \<Rightarrow> (jsval \<Rightarrow> bool) \<Rightarrow> jsval" where
  "lastOrUndefinedForArray source predicate =
     lastOrUndefinedForArray_loop source predicate (length source)"

fun lastOrUndefined_loop :: "jsval list \<Rightarrow> (jsval \<Rightarrow> bool) \<Rightarrow> jsval \<Rightarrow> jsval" where
  "lastOrUndefined_loop [] predicate lst = lst"
| "lastOrUndefined_loop (item # rest) predicate lst =
     (if predicate item then lastOrUndefined_loop rest predicate item
      else lastOrUndefined_loop rest predicate lst)"

fun lastOrUndefined :: "sequence \<Rightarrow> (jsval \<Rightarrow> bool) \<Rightarrow> jsval" where
  "lastOrUndefined (Array source) predicate = lastOrUndefinedForArray source predicate"
| "lastOrUndefined (Iterable source) predicate = lastOrUndefined_loop source predicate Undefined"

definition last_linq :: "sequence \<Rightarrow> (jsval \<Rightarrow> bool) \<Rightarrow> error + jsval" where
  "last_linq source predicate =
     (let result = lastOrUndefined source predicate in
      if strictEquals result Undefined then Inl (Error ''empty sequence'') else Inr result)"

subsection \<open>single\<close>

fun singleOrUndefined_loop :: "jsval list \<Rightarrow> (jsval \<Rightarrow> bool) \<Rightarrow> jsval \<Rightarrow> error + jsval" where
  "singleOrUndefined_loop [] predicate result = Inr result"
| "singleOrUndefined_loop (item # rest) predicate result =
     (if predicate item then
        (if \<not> strictEquals result Undefined
         then Inl (Error ''sequence contains more than one element that satisfies specified predicate'')
         else singleOrUndefined_loop rest predicate item)
      else singleOrUndefined_loop rest predicate result)"

definition singleOrUndefined :: "jsval list \<Rightarrow> (jsval \<Rightarrow> bool) \<Rightarrow> error + jsval" where
  "singleOrUndefined source predicate = singleOrUndefined_loop source predicate Undefined"

definition single_linq :: "jsval list \<Rightarrow> (jsval \<Rightarrow> bool) \<Rightarrow> error + jsval" where
  "single_linq source predicate =
     (case singleOrUndefined source predicate of
        Inl e \<Rightarrow> Inl e
      | Inr result \<Rightarrow>
          if strictEquals result Undefined
          then Inl (Error ''sequence contains no element that satisfies specified predicate'')
          else Inr result)"

subsection \<open>max, min and minMax\<close>

fun max_loop :: "'a list \<Rightarrow> ('a \<Rightarrow> number) \<Rightarrow> number \<Rightarrow> number" where
  "max_loop [] selector m = m"
| "max_loop (item # rest) selector m = max_loop rest selector (Math_max m (selector item))"

definition max_linq :: "'a list \<Rightarrow> ('a \<Rightarrow> number) \<Rightarrow> number" where
  "max_linq source selector = max_loop source selector MIN_VALUE"

fun min_loop :: "'a list \<Rightarrow> ('a \<Rightarrow> number) \<Rightarrow> number \<Rightarrow> number" where
  "min_loop [] selector m = m"
| "min_loop (item # rest) selector m = min_loop rest selector (Math_min m (selector item))"

definition min_linq :: "'a list \<Rightarrow> ('a \<Rightarrow> number) \<Rightarrow> number" where
  "min_linq source selector = min_loop source selector MAX_VALUE"

fun minMax_loop :: "'a list \<Rightarrow> ('a \<Rightarrow> number) \<Rightarrow> number \<Rightarrow> number \<Rightarrow> number \<times> number" where
  "minMax_loop [] selector mn mx = (mn, mx)"
| "minMax_loop (item # rest) selector mn mx =
     (let v = selector item in minMax_loop rest selector (Math_min mn v) (Math_max mx v))"

definition minMax :: "'a list \<Rightarrow> ('a \<Rightarrow> number) \<Rightarrow> number \<times> number" where
  "minMax source selector = minMax_loop source selector MAX_VALUE MIN_VALUE"


section \<open>Lazy stages\<close>

text \<open>
  Every transformation is a generator function (\<^verbatim>\<open>function*\<close>). Calling it runs none of its
  body: the call returns a generator object suspended at the start of the body. The object
  is its own iterator (its \<^verbatim>\<open>[Symbol.iterator]()\<close> returns the object itself), each \<^verbatim>\<open>next()\<close>
  runs the body up to the next \<^verbatim>\<open>yield\<close>, and \<^verbatim>\<open>return()\<close>, which a \<^verbatim>\<open>for...of\<close> loop calls when
  it is left by \<^verbatim>\<open>break\<close>, completes the generator. A completed generator answers every later
  \<^verbatim>\<open>next()\<close> with \<^verbatim>\<open>done\<close>.

  A generator object is a record of what the body has captured and of its local variables,
  and \<^verbatim>\<open>next()\<close> is a function from the record to the delivered item (\<open>None\<close> for \<^verbatim>\<open>done\<close>) and
  the updated record. The sources of the stages modelled here are arrays. The array
  iterator that the body's \<^verbatim>\<open>for...of\<close> loop holds is represented by the elements it has not
  delivered yet: the whole source as long as the body has not started. An array iterator
  has no \<^verbatim>\<open>return\<close> method, so a \<^verbatim>\<open>break\<close> in the body leaves it as it is.
\<close>

datatype GeneratorState = SuspendedStart | SuspendedYield | Completed

record 'a Generator =
  g_source :: "'a list"
  g_iterator :: "'a list"
  g_state :: GeneratorState

definition Generator_return :: "('a, 'z) Generator_scheme \<Rightarrow> ('a, 'z) Generator_scheme" where
  "Generator_return g = g\<lparr>g_state := Completed\<rparr>"

text \<open>The number of elements a stage has pulled from its source so far.\<close>

definition pulled :: "('a, 'z) Generator_scheme \<Rightarrow> nat" where
  "pulled g = length (g_source g) - length (g_iterator g)"

subsection \<open>toArray and the traversal of a stage\<close>

text \<open>
  \<^verbatim>\<open>toArray\<close> pushes what \<^verbatim>\<open>for (let item of source)\<close> delivers. The loop is given the \<^verbatim>\<open>next\<close>
  method of the iterator and its state; it need not end, so its result is an option. The
  state of the iterator after the loop is returned with the array, since a second
  traversal of the same object starts from it.
\<close>

partial_function (option) toArray_loop ::
  "('g \<Rightarrow> 'a option \<times> 'g) \<Rightarrow> 'g \<Rightarrow> 'a list \<Rightarrow> ('a list \<times> 'g) option" where
  "toArray_loop nxt g array =
     (case fst (nxt g) of
        None \<Rightarrow> Some (array, snd (nxt g))
      | Some item \<Rightarrow> toArray_loop nxt (snd (nxt g)) (array @ [item]))"

definition toArray :: "('g \<Rightarrow> 'a option \<times> 'g) \<Rightarrow> 'g \<Rightarrow> 'a list option" where
  "toArray nxt g = map_option fst (toArray_loop nxt g [])"

text \<open>Building a stage once and traversing the same object twice, to the end each time.\<close>

definition traverseTwice :: "('g \<Rightarrow> 'a option \<times> 'g) \<Rightarrow> 'g \<Rightarrow> ('a list \<times> 'a list) option" where
  "traverseTwice nxt g =
     (case toArray_loop nxt g [] of
        None \<Rightarrow> None
      | Some r1 \<Rightarrow> map_option (\<lambda>r2. (fst r1, fst r2)) (toArray_loop nxt (snd r1) []))"

text \<open>
  A traversal abandoned at its first item, \<^verbatim>\<open>for (const item of stage) { break; }\<close>, followed
  by a full traversal of the same object.
\<close>

definition forOf_break ::
  "(('a, 'z) Generator_scheme \<Rightarrow> 'a option \<times> ('a, 'z) Generator_scheme) \<Rightarrow>
   ('a, 'z) Generator_scheme \<Rightarrow> ('a, 'z) Generator_scheme" where
  "forOf_break nxt g =
     (case fst (nxt g) of
        None \<Rightarrow> snd (nxt g)
      | Some item \<Rightarrow> Generator_return (snd (nxt g)))"

definition abandonThenTraverse ::
  "(('a, 'z) Generator_scheme \<Rightarrow> 'a option \<times> ('a, 'z) Generator_scheme) \<Rightarrow>
   ('a, 'z) Generator_scheme \<Rightarrow> 'a list option" where
  "abandonThenTraverse nxt g = toArray nxt (forOf_break nxt g)"

subsection \<open>where\<close>

record 'a WhereGenerator = "'a Generator" +
  w_predicate :: "'a \<Rightarrow> nat \<Rightarrow> bool"
  w_index :: nat

definition where_linq :: "'a list \<Rightarrow> ('a \<Rightarrow> nat \<Rightarrow> bool) \<Rightarrow> 'a WhereGenerator" where
  "where_linq source predicate =
     \<lparr>g_source = source, g_iterator = source, g_state = SuspendedStart,
      w_predicate = predicate, w_index = 0\<rparr>"

text \<open>The loop from the point where it asks its iterator for the next item, up to the next
  \<^verbatim>\<open>yield\<close> or the end.\<close>

fun where_loop :: "('a \<Rightarrow> nat \<Rightarrow> bool) \<Rightarrow> 'a list \<Rightarrow> nat \<Rightarrow> 'a option \<times> 'a list \<times> nat" where
  "where_loop predicate [] idx = (None, [], idx)"
| "where_loop predicate (item # rest) idx =
     (if predicate item idx then (Some item, rest, idx)
      else where_loop predicate rest (idx + 1))"

definition where_resume :: "'a WhereGenerator \<Rightarrow> 'a option \<times> 'a WhereGenerator" where
  "where_resume g =
     (case where_loop (w_predicate g) (g_iterator g) (w_index g) of
        (None, it, idx) \<Rightarrow> (None, g\<lparr>g_iterator := it, g_state := Completed, w_index := idx\<rparr>)
      | (Some item, it, idx) \<Rightarrow>
          (Some item, g\<lparr>g_iterator := it, g_state := SuspendedYield, w_index := idx\<rparr>))"

text \<open>Resumed after the \<^verbatim>\<open>yield\<close>, the body first runs \<^verbatim>\<open>++index\<close>.\<close>

definition where_next :: "'a WhereGenerator \<Rightarrow> 'a option \<times> 'a WhereGenerator" where
  "where_next g =
     (case g_state g of
        Completed \<Rightarrow> (None, g)
      | SuspendedStart \<Rightarrow> where_resume g
      | SuspendedYield \<Rightarrow> where_resume (g\<lparr>w_index := w_index g + 1\<rparr>))"

subsection \<open>take and skip\<close>

record 'a SliceGenerator = "'a Generator" +
  s_count :: int
  s_index :: nat

definition take_linq :: "'a list \<Rightarrow> int \<Rightarrow> 'a SliceGenerator" where
  "take_linq source n =
     \<lparr>g_source = source, g_iterator = source, g_state = SuspendedStart,
      s_count = n, s_index = 0\<rparr>"

text \<open>The loop of \<^verbatim>\<open>take\<close> asks its iterator for an item first and compares \<^verbatim>\<open>index < count\<close>
  afterwards; at the \<^verbatim>\<open>break\<close> the item has been pulled.\<close>

definition take_resume :: "'a SliceGenerator \<Rightarrow> 'a option \<times> 'a SliceGenerator" where
  "take_resume g =
     (case g_iterator g of
        [] \<Rightarrow> (None, g\<lparr>g_state := Completed\<rparr>)
      | item # rest \<Rightarrow>
          if int (s_index g) < s_count g
          then (Some item, g\<lparr>g_iterator := rest, g_state := SuspendedYield\<rparr>)
          else (None, g\<lparr>g_iterator := rest, g_state := Completed\<rparr>))"

definition take_next :: "'a SliceGenerator \<Rightarrow> 'a option \<times> 'a SliceGenerator" where
  "take_next g =
     (case g_state g of
        Completed \<Rightarrow> (None, g)
      | SuspendedStart \<Rightarrow> take_resume g
      | SuspendedYield \<Rightarrow> take_resume (g\<lparr>s_index := s_index g + 1\<rparr>))"

definition skip_linq :: "'a list \<Rightarrow> int \<Rightarrow> 'a SliceGenerator" where
  "skip_linq source n =
     \<lparr>g_source = source, g_iterator = source, g_state = SuspendedStart,
      s_count = n, s_index = 0\<rparr>"

fun skip_loop :: "int \<Rightarrow> 'a list \<Rightarrow> nat \<Rightarrow> 'a option \<times> 'a list \<times> nat" where
  "skip_loop n [] idx = (None, [], idx)"
| "skip_loop n (item # rest) idx =
     (if int idx \<ge> n then (Some item, rest, idx) else skip_loop n rest (idx + 1))"

definition skip_resume :: "'a SliceGenerator \<Rightarrow> 'a option \<times> 'a SliceGenerator" where
  "skip_resume g =
     (case skip_loop (s_count g) (g_iterator g) (s_index g) of
        (None, it, idx) \<Rightarrow> (None, g\<lparr>g_iterator := it, g_state := Completed, s_index := idx\<rparr>)
      | (Some item, it, idx) \<Rightarrow>
          (Some item, g\<lparr>g_iterator := it, g_state := SuspendedYield, s_index := idx\<rparr>))"

definition skip_next :: "'a SliceGenerator \<Rightarrow> 'a option \<times> 'a SliceGenerator" where
  "skip_next g =
     (case g_state g of
        Completed \<Rightarrow> (None, g)
      | SuspendedStart \<Rightarrow> skip_resume g
      | SuspendedYield \<Rightarrow> skip_resume (g\<lparr>s_index := s_index g + 1\<rparr>))"

subsection \<open>distinct and distinctHash\<close>

record 'a DistinctGenerator = "'a Generator" +
  d_comparer :: "'a \<Rightarrow> 'a \<Rightarrow> bool"
  d_iteratedElements :: "'a list"

definition distinct_linq :: "'a list \<Rightarrow> ('a \<Rightarrow> 'a \<Rightarrow> bool) \<Rightarrow> 'a DistinctGenerator" where
  "distinct_linq source comparer =
     \<lparr>g_source = source, g_iterator = source, g_state = SuspendedStart,
      d_comparer = comparer, d_iteratedElements = []\<rparr>"

fun distinct_loop ::
  "('a \<Rightarrow> 'a \<Rightarrow> bool) \<Rightarrow> 'a list \<Rightarrow> 'a list \<Rightarrow> 'a option \<times> 'a list \<times> 'a list" where
  "distinct_loop comparer [] iteratedElements = (None, [], iteratedElements)"
| "distinct_loop comparer (item # rest) iteratedElements =
     (if contains iteratedElements item comparer
      then distinct_loop comparer rest iteratedElements
      else (Some item, rest, iteratedElements @ [item]))"

definition distinct_resume :: "'a DistinctGenerator \<Rightarrow> 'a option \<times> 'a DistinctGenerator" where
  "distinct_resume g =
     (case distinct_loop (d_comparer g) (g_iterator g) (d_iteratedElements g) of
        (None, it, els) \<Rightarrow>
          (None, g\<lparr>g_iterator := it, g_state := Completed, d_iteratedElements := els\<rparr>)
      | (Some item, it, els) \<Rightarrow>
          (Some item, g\<lparr>g_iterator := it, g_state := SuspendedYield, d_iteratedElements := els\<rparr>))"

definition distinct_next :: "'a DistinctGenerator \<Rightarrow> 'a option \<times> 'a DistinctGenerator" where
  "distinct_next g =
     (case g_state g of
        Completed \<Rightarrow> (None, g)
      | SuspendedStart \<Rightarrow> distinct_resume g
      | SuspendedYield \<Rightarrow> distinct_resume g)"

text \<open>
  The hash set of \<^verbatim>\<open>distinctHash\<close> is an object with number keys. A number key names the
  property whose name is the number's canonical string, which is a different string for
  different numbers, so the object is a map from numbers. Reading a property that is not
  there gives \<^verbatim>\<open>undefined\<close>.
\<close>

type_synonym HashSet = "number \<rightharpoonup> jsval"

definition getProperty :: "HashSet \<Rightarrow> number \<Rightarrow> jsval" where
  "getProperty obj k = (case obj k of None \<Rightarrow> Undefined | Some v \<Rightarrow> v)"

record DistinctHashGenerator = "jsval Generator" +
  h_hash :: "jsval \<Rightarrow> number"
  h_iteratedElements :: HashSet

definition distinctHash :: "jsval list \<Rightarrow> (jsval \<Rightarrow> number) \<Rightarrow> DistinctHashGenerator" where
  "distinctHash source hash =
     \<lparr>g_source = source, g_iterator = source, g_state = SuspendedStart,
      h_hash = hash, h_iteratedElements = Map.empty\<rparr>"

fun distinctHash_loop ::
  "(jsval \<Rightarrow> number) \<Rightarrow> jsval list \<Rightarrow> HashSet \<Rightarrow> jsval option \<times> jsval list \<times> HashSet" where
  "distinctHash_loop hash [] iteratedElements = (None, [], iteratedElements)"
| "distinctHash_loop hash (item # rest) iteratedElements =
     (let hashValue = hash item in
      if \<not> strictEquals (getProperty iteratedElements hashValue) Undefined
      then distinctHash_loop hash rest iteratedElements
      else (Some item, rest, iteratedElements(hashValue \<mapsto> item)))"

definition distinctHash_resume :: "DistinctHashGenerator \<Rightarrow> jsval option \<times> DistinctHashGenerator" where
  "distinctHash_resume g =
     (case distinctHash_loop (h_hash g) (g_iterator g) (h_iteratedElements g) of
        (None, it, els) \<Rightarrow>
          (None, g\<lparr>g_iterator := it, g_state := Completed, h_iteratedElements := els\<rparr>)
      | (Some item, it, els) \<Rightarrow>
          (Some item, g\<lparr>g_iterator := it, g_state := SuspendedYield, h_iteratedElements := els\<rparr>))"

definition distinctHash_next :: "DistinctHashGenerator \<Rightarrow> jsval option \<times> DistinctHashGenerator" where
  "distinctHash_next g =
     (case g_state g of
        Completed \<Rightarrow> (None, g)
      | SuspendedStart \<Rightarrow> distinctHash_resume g
      | SuspendedYield \<Rightarrow> distinctHash_resume g)"

section \<open>The fluent wrapper\<close>

text \<open>The wrapper holds one iterable. \<^verbatim>\<open>count\<close> and \<^verbatim>\<open>distinct\<close> take an argument and call the
  free function without it, so the free function's default stands in.\<close>

record 'i LinqWrapper =
  iterable :: 'i

definition L :: "'i \<Rightarrow> 'i LinqWrapper" where
  "L it = \<lparr>iterable = it\<rparr>"

definition LinqWrapper_count :: "'a list LinqWrapper \<Rightarrow> ('a \<Rightarrow> bool) \<Rightarrow> nat" where
  "LinqWrapper_count this predicate = count_linq (iterable this) defaultPredicate"

definition LinqWrapper_distinct ::
  "jsval list LinqWrapper \<Rightarrow> (jsval \<Rightarrow> jsval \<Rightarrow> bool) \<Rightarrow> jsval DistinctGenerator LinqWrapper" where
  "LinqWrapper_distinct this comparer =
     \<lparr>iterable = distinct_linq (iterable this) defaultEqualityComparer\<rparr>"

definition LinqWrapper_toArray ::
  "('g \<Rightarrow> 'a option \<times> 'g) \<Rightarrow> 'g LinqWrapper \<Rightarrow> 'a list option" where
  "LinqWrapper_toArray nxt this = toArray nxt (iterable this)"

section \<open>Notions used in the statements\<close>

text \<open>The number of elements a full traversal of a stage pulls from its source.\<close>

definition pulledByTraversal ::
  "(('a, 'z) Generator_scheme \<Rightarrow> 'a option \<times> ('a, 'z) Generator_scheme) \<Rightarrow>
   ('a, 'z) Generator_scheme \<Rightarrow> nat option" where
  "pulledByTraversal nxt g = map_option (\<lambda>r. pulled (snd r)) (toArray_loop nxt g [])"

text \<open>The predicate \<^verbatim>\<open>x => x % 2 === 0\<close> on integers, used as an example.\<close>

definition isEven :: "int \<Rightarrow> nat \<Rightarrow> bool" where
  "isEven x i = (x mod 2 = 0)"

text \<open>The elements of \<open>xs\<close> that satisfy \<open>p\<close> together with their position, counted from \<open>i\<close>.\<close>

fun indexedFilter :: "('a \<Rightarrow> nat \<Rightarrow> bool) \<Rightarrow> 'a list \<Rightarrow> nat \<Rightarrow> 'a list" where
  "indexedFilter p [] i = []"
| "indexedFilter p (x # xs) i =
     (if p x i then x # indexedFilter p xs (i + 1) else indexedFilter p xs (i + 1))"

text \<open>The elements of \<open>xs\<close> outside \<open>S\<close>, each at its first occurrence only.\<close>

fun firstOccurrences :: "'a set \<Rightarrow> 'a list \<Rightarrow> 'a list" where
  "firstOccurrences S [] = []"
| "firstOccurrences S (x # xs) =
     (if x \<in> S then firstOccurrences S xs else x # firstOccurrences (insert x S) xs)"

text \<open>What \<^verbatim>\<open>distinct\<close> yields from the items \<open>xs\<close> when it has \<open>seen\<close> in \<^verbatim>\<open>iteratedElements\<close>.\<close>

fun distinctFrom :: "('a \<Rightarrow> 'a \<Rightarrow> bool) \<Rightarrow> 'a list \<Rightarrow> 'a list \<Rightarrow> 'a list" where
  "distinctFrom comparer seen [] = []"
| "distinctFrom comparer seen (x # xs) =
     (if contains seen x comparer then distinctFrom comparer seen xs
      else x # distinctFrom comparer (seen @ [x]) xs)"

text \<open>The value of \<^verbatim>\<open>index\<close> with which a suspended stage meets the next item of its source.\<close>

definition where_start :: "'a WhereGenerator \<Rightarrow> nat" where
  "where_start g = (if g_state g = SuspendedYield then w_index g + 1 else w_index g)"

definition slice_start :: "'a SliceGenerator \<Rightarrow> nat" where
  "slice_start g = (if g_state g = SuspendedYield then s_index g + 1 else s_index g)"

section \<open>Properties of the terminal operations\<close>

lemma strictEquals_Undefined [simp]: "strictEquals v Undefined = (v = Undefined)"
  by (auto simp: strictEquals_def)

subsection \<open>elementAt\<close>

lemma elementAtOrUndefined_loop_nth:
  "elementAtOrUndefined_loop source idx c =
     (if int c \<le> idx \<and> idx < int c + int (length source) then source ! nat (idx - int c)
      else Undefined)"
proof (induction source arbitrary: c)
  case Nil
  then show ?case by auto
next
  case (Cons item rest)
  show ?case
  proof (cases "int c = idx")
    case True
    then show ?thesis by simp
  next
    case False
    have "nat (idx - int c) = Suc (nat (idx - int (c + 1)))" if "int c < idx"
      using that by simp
    with False show ?thesis
      by (auto simp: Cons.IH)
  qed
qed

lemma elementAtOrUndefined_nth:
  "elementAtOrUndefined A i = (if 0 \<le> i \<and> i < int (length A) then A ! nat i else Undefined)"
  by (simp add: elementAtOrUndefined_def elementAtOrUndefined_loop_nth)

text \<open>
  Claim C4, as the code has it. \<^verbatim>\<open>elementAtOrUndefined(A, i)\<close> is \<open>A[i]\<close> for \<open>0 \<le> i < |A|\<close> and
  \<^verbatim>\<open>undefined\<close> for every other integer \<open>i\<close>. \<^verbatim>\<open>elementAt(A, i)\<close> returns \<open>A[i]\<close> whenever
  \<open>0 \<le> i < |A|\<close> and \<open>A[i]\<close> is truthy, and throws \<^verbatim>\<open>Error("element not existed")\<close> whenever \<open>i\<close> is
  negative, \<open>i \<ge> |A|\<close>, or the element at \<open>i\<close> is \<^verbatim>\<open>undefined\<close> itself: the sentinel is a value
  an array can hold. (What \<^verbatim>\<open>elementAt\<close> does at a falsy element other than \<^verbatim>\<open>undefined\<close> is
  not part of this statement.)
\<close>

theorem elementAt_amended:
  "elementAtOrUndefined A i = (if 0 \<le> i \<and> i < int (length A) then A ! nat i else Undefined)
   \<and> (0 \<le> i \<and> i < int (length A) \<and> ToBoolean (A ! nat i) \<longrightarrow> elementAt A i = Inr (A ! nat i))
   \<and> (i < 0 \<or> int (length A) \<le> i \<or> (0 \<le> i \<and> i < int (length A) \<and> A ! nat i = Undefined)
        \<longrightarrow> elementAt A i = Inl (Error ''element not existed''))"
  by (auto simp: elementAt_def elementAtOrUndefined_nth)

text \<open>The statement at the array \<open>[7, undefined]\<close> and the indices \<open>0\<close>, \<open>1\<close>, \<open>2\<close> and \<open>-1\<close>.\<close>

theorem elementAt_amended_witness:
  "elementAt [int_val 7, Undefined] 0 = Inr (int_val 7)
   \<and> elementAt [int_val 7, Undefined] 1 = Inl (Error ''element not existed'')
   \<and> elementAt [int_val 7, Undefined] 2 = Inl (Error ''element not existed'')
   \<and> elementAt [int_val 7, Undefined] (-1) = Inl (Error ''element not existed'')
   \<and> elementAtOrUndefined [int_val 7, Undefined] 2 = Undefined"
  using elementAt_amended [of "[int_val 7, Undefined]" 0]
    elementAt_amended [of "[int_val 7, Undefined]" 1]
    elementAt_amended [of "[int_val 7, Undefined]" 2]
    elementAt_amended [of "[int_val 7, Undefined]" "-1"]
  by simp

text \<open>
  Claim C4 as stated fails: index \<open>0\<close> is in range for the one-element arrays
  \<open>[undefined]\<close> and \<open>[0]\<close>, and \<^verbatim>\<open>elementAt\<close> throws at both.
\<close>

theorem elementAt_counterexample:
  "elementAt [Undefined] 0 = Inl (Error ''element not existed'')
   \<and> elementAt [int_val 0] 0 = Inl (Error ''element not existed'')"
  by (simp add: elementAt_def elementAtOrUndefined_def)

subsection \<open>first and last\<close>

lemma firstOrUndefined_find:
  "firstOrUndefined source p = (case find p source of None \<Rightarrow> Undefined | Some x \<Rightarrow> x)"
  by (induction source) simp_all

lemma find_append_case:
  "find p (xs @ ys) = (case find p xs of None \<Rightarrow> find p ys | Some x \<Rightarrow> Some x)"
  by (induction xs) simp_all

lemma lastOrUndefined_loop_find:
  "lastOrUndefined_loop source p l = (case find p (rev source) of None \<Rightarrow> l | Some x \<Rightarrow> x)"
  by (induction source arbitrary: l) (simp_all add: find_append_case split: option.splits)

lemma lastOrUndefinedForArray_loop_find:
  "n \<le> length source \<Longrightarrow>
   lastOrUndefinedForArray_loop source p n =
     (case find p (rev (take n source)) of None \<Rightarrow> Undefined | Some x \<Rightarrow> x)"
  by (induction n) (simp_all add: take_Suc_conv_app_nth Let_def find_append_case)

lemma lastOrUndefined_find:
  "lastOrUndefined s p = (case find p (rev (items s)) of None \<Rightarrow> Undefined | Some x \<Rightarrow> x)"
  by (cases s) (simp_all add: lastOrUndefinedForArray_def lastOrUndefinedForArray_loop_find
      lastOrUndefined_loop_find)

text \<open>
  Claim C5, as the code has it. The sentinel is the value \<^verbatim>\<open>undefined\<close>, which a source can
  deliver as an element. \<^verbatim>\<open>firstOrUndefined(source, p)\<close> is the first element satisfying \<open>p\<close>,
  and \<^verbatim>\<open>undefined\<close> when there is none. \<^verbatim>\<open>first(source, p)\<close> returns the first element
  satisfying \<open>p\<close> whenever there is one and it is not \<^verbatim>\<open>undefined\<close>, and throws
  \<^verbatim>\<open>Error("empty sequence")\<close> exactly when no element satisfies \<open>p\<close> or the first one that does is
  \<^verbatim>\<open>undefined\<close>. \<^verbatim>\<open>lastOrUndefined\<close> and \<^verbatim>\<open>last\<close> do the same with the last element satisfying
  \<open>p\<close>, for an array and for any other iterable.
\<close>

theorem first_last_amended:
  "firstOrUndefined source p = (case find p source of None \<Rightarrow> Undefined | Some x \<Rightarrow> x)
   \<and> first source p =
       (case find p source of
          None \<Rightarrow> Inl (Error ''empty sequence'')
        | Some x \<Rightarrow> if x = Undefined then Inl (Error ''empty sequence'') else Inr x)
   \<and> lastOrUndefined s p = (case find p (rev (items s)) of None \<Rightarrow> Undefined | Some x \<Rightarrow> x)
   \<and> last_linq s p =
       (case find p (rev (items s)) of
          None \<Rightarrow> Inl (Error ''empty sequence'')
        | Some x \<Rightarrow> if x = Undefined then Inl (Error ''empty sequence'') else Inr x)"
  by (simp add: first_def last_linq_def throwEmptySequence_def firstOrUndefined_find
      lastOrUndefined_find split: option.splits)

text \<open>
  Claim C5 as stated fails: in \<open>[undefined, 1]\<close> every element satisfies the default
  predicate, yet \<^verbatim>\<open>first\<close> throws, and \<^verbatim>\<open>firstOrUndefined\<close> returns what it returns for the empty
  source; \<^verbatim>\<open>last\<close> throws on \<open>[1, undefined]\<close>, as an array and as any other iterable.
\<close>

theorem first_last_counterexample:
  "first [Undefined, int_val 1] defaultPredicate = Inl (Error ''empty sequence'')
   \<and> firstOrUndefined [Undefined, int_val 1] defaultPredicate = firstOrUndefined [] defaultPredicate
   \<and> last_linq (Array [int_val 1, Undefined]) defaultPredicate = Inl (Error ''empty sequence'')
   \<and> last_linq (Iterable [int_val 1, Undefined]) defaultPredicate = Inl (Error ''empty sequence'')"
  by (simp add: first_def last_linq_def throwEmptySequence_def defaultPredicate_def
      lastOrUndefinedForArray_def numeral_2_eq_2)

subsection \<open>single\<close>

lemma singleOrUndefined_loop_filter:
  "Undefined \<notin> set (filter p A) \<Longrightarrow>
   singleOrUndefined_loop A p r =
     (if r = Undefined
      then (case filter p A of
              [] \<Rightarrow> Inr Undefined
            | [x] \<Rightarrow> Inr x
            | x # y # zs \<Rightarrow>
                Inl (Error ''sequence contains more than one element that satisfies specified predicate''))
      else (case filter p A of
              [] \<Rightarrow> Inr r
            | x # ys \<Rightarrow>
                Inl (Error ''sequence contains more than one element that satisfies specified predicate'')))"
proof (induction A arbitrary: r)
  case Nil
  then show ?case by simp
next
  case (Cons item rest)
  from Cons.prems have rest: "Undefined \<notin> set (filter p rest)"
    by (simp split: if_splits)
  note IH = Cons.IH [OF rest]
  show ?case
  proof (cases "p item")
    case True
    with Cons.prems have "item \<noteq> Undefined" by auto
    with True show ?thesis
      by (simp add: IH split: list.splits)
  next
    case False
    then show ?thesis by (simp add: IH)
  qed
qed

text \<open>
  Claim C7, as the code has it: for every source \<open>A\<close> and predicate \<open>p\<close> such that no element
  of \<open>A\<close> satisfying \<open>p\<close> is \<^verbatim>\<open>undefined\<close>. \<^verbatim>\<open>single(A, p)\<close> returns the element satisfying \<open>p\<close>
  when there is exactly one, throws \<^verbatim>\<open>Error("sequence contains no element ...")\<close> when there is
  none (the spec's \<open>EmptySequenceError\<close>) and \<^verbatim>\<open>Error("sequence contains more than one element ...")\<close>
  when there are several (the spec's \<open>MultipleMatchError\<close>); \<^verbatim>\<open>singleOrUndefined(A, p)\<close> returns
  \<^verbatim>\<open>undefined\<close> when there is none and throws the same error when there are several.
\<close>

theorem single_amended:
  "Undefined \<notin> set (filter p A) \<Longrightarrow>
   single_linq A p =
     (case filter p A of
        [] \<Rightarrow> Inl (Error ''sequence contains no element that satisfies specified predicate'')
      | [x] \<Rightarrow> Inr x
      | x # y # zs \<Rightarrow>
          Inl (Error ''sequence contains more than one element that satisfies specified predicate''))
   \<and> singleOrUndefined A p =
     (case filter p A of
        [] \<Rightarrow> Inr Undefined
      | [x] \<Rightarrow> Inr x
      | x # y # zs \<Rightarrow>
          Inl (Error ''sequence contains more than one element that satisfies specified predicate''))"
  by (auto simp: single_linq_def singleOrUndefined_def singleOrUndefined_loop_filter
      simp del: set_filter split: list.splits)

text \<open>The spec's own examples: \<open>single([], _ => true)\<close>, \<open>single([1, 2], _ => true)\<close> and
  \<open>single([1, 2], x => x === 2)\<close>.\<close>

theorem single_amended_witness:
  "single_linq [] defaultPredicate =
     Inl (Error ''sequence contains no element that satisfies specified predicate'')
   \<and> single_linq [int_val 1, int_val 2] defaultPredicate =
     Inl (Error ''sequence contains more than one element that satisfies specified predicate'')
   \<and> single_linq [int_val 1, int_val 2] (\<lambda>x. strictEquals x (int_val 2)) = Inr (int_val 2)
   \<and> singleOrUndefined [] defaultPredicate = Inr Undefined"
  using single_amended [of defaultPredicate "[]"]
    single_amended [of defaultPredicate "[int_val 1, int_val 2]"]
    single_amended [of "\<lambda>x. strictEquals x (int_val 2)" "[int_val 1, int_val 2]"]
  by (simp add: defaultPredicate_def strictEquals_def)

text \<open>
  Claim C7 as stated fails: two elements of \<open>[undefined, 1]\<close> satisfy the default predicate
  and \<^verbatim>\<open>single\<close> and \<^verbatim>\<open>singleOrUndefined\<close> return \<open>1\<close>; exactly one element of \<open>[undefined]\<close> does
  and \<^verbatim>\<open>single\<close> throws.
\<close>

theorem single_counterexample:
  "single_linq [Undefined, int_val 1] defaultPredicate = Inr (int_val 1)
   \<and> singleOrUndefined [Undefined, int_val 1] defaultPredicate = Inr (int_val 1)
   \<and> single_linq [Undefined] defaultPredicate =
       Inl (Error ''sequence contains no element that satisfies specified predicate'')"
  by (simp add: single_linq_def singleOrUndefined_def defaultPredicate_def)

subsection \<open>max and min\<close>

lemma max_loop_foldl: "max_loop source selector m = foldl Math_max m (map selector source)"
  by (induction source arbitrary: m) simp_all

lemma min_loop_foldl: "min_loop source selector m = foldl Math_min m (map selector source)"
  by (induction source arbitrary: m) simp_all

lemma minMax_loop_pair:
  "minMax_loop source selector mn mx = (min_loop source selector mn, max_loop source selector mx)"
  by (induction source arbitrary: mn mx) (simp_all add: Let_def)

lemma Math_max_below: "lessThan_num x m \<Longrightarrow> Math_max m x = m"
  by (cases x; cases m) (simp_all add: Math_max_def)

lemma max_loop_below:
  "\<forall>item\<in>set source. lessThan_num (selector item) m \<Longrightarrow> max_loop source selector m = m"
  by (induction source) (simp_all add: Math_max_below)

text \<open>
  Claim C6 at the empty sequence. \<^verbatim>\<open>min\<close> returns, without throwing, the largest finite number
  \<^verbatim>\<open>Number.MAX_VALUE\<close> its running minimum starts from. \<^verbatim>\<open>max\<close> returns, without throwing, the
  constant its running maximum starts from, \<^verbatim>\<open>Number.MIN_VALUE\<close>. That constant is positive:
  zero, \<open>-1\<close>, \<open>-Number.MAX_VALUE\<close> and \<open>-Infinity\<close> all lie below it, so what \<^verbatim>\<open>max\<close> returns
  is not the least number of the type, which is what the claim names.
\<close>

theorem max_empty_is_not_least:
  "max_linq [] selector = MIN_VALUE
   \<and> lessThan_num (Finite 0) (max_linq [] selector)
   \<and> lessThan_num (Finite (- 1)) (max_linq [] selector)
   \<and> lessThan_num (Finite (- ((2 ^ 53 - 1) * 2 ^ 971))) (max_linq [] selector)
   \<and> lessThan_num NegInfinity (max_linq [] selector)
   \<and> min_linq [] selector = MAX_VALUE
   \<and> minMax [] selector = (MAX_VALUE, MIN_VALUE)"
proof -
  have seed: "max_linq [] selector = MIN_VALUE"
    by (simp add: max_linq_def)
  have pos: "(0::real) < 1 / 2 ^ 1074"
    by simp
  have neg: "- ((2 ^ 53 - 1) * 2 ^ 971) < (0::real)"
    by simp
  have zero: "lessThan_num (Finite 0) MIN_VALUE"
    using pos by (simp add: MIN_VALUE_def)
  have one: "lessThan_num (Finite (- 1)) MIN_VALUE"
    using pos by (simp add: MIN_VALUE_def)
  have "- ((2 ^ 53 - 1) * 2 ^ 971) < (1::real) / 2 ^ 1074"
    using neg pos by (rule order.strict_trans)
  then have least: "lessThan_num (Finite (- ((2 ^ 53 - 1) * 2 ^ 971))) MIN_VALUE"
    unfolding MIN_VALUE_def lessThan_num.simps .
  have inf: "lessThan_num NegInfinity MIN_VALUE"
    by (simp add: MIN_VALUE_def)
  note zero one least inf
  with seed show ?thesis
    by (simp add: min_linq_def minMax_def)
qed

text \<open>
  Claim C10: \<^verbatim>\<open>max\<close> is the left fold of \<^verbatim>\<open>Math.max\<close> over the projected values from
  \<^verbatim>\<open>Number.MIN_VALUE\<close>, \<^verbatim>\<open>min\<close> the left fold of \<^verbatim>\<open>Math.min\<close> from \<^verbatim>\<open>Number.MAX_VALUE\<close>, and \<^verbatim>\<open>minMax\<close>
  is the pair of the two. So when the source is not empty and every projected value is
  less than \<^verbatim>\<open>Number.MIN_VALUE\<close>, \<^verbatim>\<open>max\<close> returns \<^verbatim>\<open>Number.MIN_VALUE\<close>, which is positive and so is
  none of the projected values.
\<close>

theorem max_min_fold:
  "max_linq source selector = foldl Math_max MIN_VALUE (map selector source)
   \<and> min_linq source selector = foldl Math_min MAX_VALUE (map selector source)
   \<and> minMax source selector = (min_linq source selector, max_linq source selector)
   \<and> (source \<noteq> [] \<longrightarrow> (\<forall>item\<in>set source. lessThan_num (selector item) MIN_VALUE)
        \<longrightarrow> max_linq source selector = MIN_VALUE \<and> lessThan_num (Finite 0) (max_linq source selector)
            \<and> max_linq source selector \<notin> selector ` set source)"
proof -
  have pos: "lessThan_num (Finite 0) MIN_VALUE"
    by (simp add: MIN_VALUE_def)
  have irrefl: "\<not> lessThan_num x x" for x
    by (cases x) simp_all
  have folds: "max_linq source selector = foldl Math_max MIN_VALUE (map selector source)"
    "min_linq source selector = foldl Math_min MAX_VALUE (map selector source)"
    by (simp_all add: max_linq_def min_linq_def max_loop_foldl min_loop_foldl)
  have pair: "minMax source selector = (min_linq source selector, max_linq source selector)"
    by (simp add: max_linq_def min_linq_def minMax_def minMax_loop_pair)
  have below: "max_linq source selector = MIN_VALUE
      \<and> lessThan_num (Finite 0) (max_linq source selector)
      \<and> max_linq source selector \<notin> selector ` set source"
    if h: "\<forall>item\<in>set source. lessThan_num (selector item) MIN_VALUE"
  proof -
    from h have eq: "max_linq source selector = MIN_VALUE"
      by (simp add: max_linq_def max_loop_below)
    from h irrefl have "MIN_VALUE \<notin> selector ` set source"
      by auto
    with eq pos show ?thesis by simp
  qed
  from folds pair below show ?thesis
    by blast
qed

text \<open>The maximum of \<open>[-3, -1]\<close> under the identity selector is \<^verbatim>\<open>Number.MIN_VALUE\<close>, not \<open>-1\<close>.\<close>

theorem max_min_fold_witness:
  "max_linq [Finite (-3), Finite (-1)] (\<lambda>x. x) = MIN_VALUE
   \<and> max_linq [Finite (-3), Finite (-1)] (\<lambda>x. x) \<noteq> Finite (-1)"
proof -
  have h: "\<forall>item\<in>set [Finite (-3), Finite (-1)]. lessThan_num ((\<lambda>x. x) item) MIN_VALUE"
    by (simp add: MIN_VALUE_def)
  have "max_linq [Finite (-3), Finite (-1)] (\<lambda>x. x) = MIN_VALUE"
    using max_min_fold [of "[Finite (-3), Finite (-1)]" "\<lambda>x. x",
        THEN conjunct2, THEN conjunct2, THEN conjunct2] h
    by blast
  then show ?thesis by (simp add: MIN_VALUE_def)
qed

section \<open>Properties of the lazy stages\<close>

subsection \<open>The traversal loop\<close>

lemma toArray_loop_done:
  "fst (nxt g) = None \<Longrightarrow> toArray_loop nxt g acc = Some (acc, snd (nxt g))"
  by (subst toArray_loop.simps) simp

lemma toArray_loop_item:
  "fst (nxt g) = Some item \<Longrightarrow>
   toArray_loop nxt g acc = toArray_loop nxt (snd (nxt g)) (acc @ [item])"
  by (subst toArray_loop.simps) simp

lemma toArray_loop_same_next:
  "nxt g = nxt g' \<Longrightarrow> toArray_loop nxt g acc = toArray_loop nxt g' acc"
  unfolding toArray_loop.simps [of nxt g acc] toArray_loop.simps [of nxt g' acc]
  by (simp split: option.split)

subsection \<open>where\<close>

lemma where_next_Completed: "g_state g = Completed \<Longrightarrow> where_next g = (None, g)"
  by (simp add: where_next_def)

lemma where_next_Nil:
  "g_state g \<noteq> Completed \<Longrightarrow> g_iterator g = [] \<Longrightarrow>
   where_next g = (None, g\<lparr>g_state := Completed, w_index := where_start g\<rparr>)"
  by (cases "g_state g") (simp_all add: where_next_def where_resume_def where_start_def)

lemma where_next_yield:
  "g_state g \<noteq> Completed \<Longrightarrow> g_iterator g = x # xs \<Longrightarrow> w_predicate g x (where_start g) \<Longrightarrow>
   where_next g = (Some x, g\<lparr>g_iterator := xs, g_state := SuspendedYield, w_index := where_start g\<rparr>)"
  by (cases "g_state g") (simp_all add: where_next_def where_resume_def where_start_def)

lemma where_next_skip:
  "g_state g \<noteq> Completed \<Longrightarrow> g_iterator g = x # xs \<Longrightarrow> \<not> w_predicate g x (where_start g) \<Longrightarrow>
   where_next g = where_next (g\<lparr>g_iterator := xs, g_state := SuspendedYield, w_index := where_start g\<rparr>)"
  by (cases "g_state g")
    (simp_all add: where_next_def where_resume_def where_start_def split: prod.split option.split)

lemma toArray_loop_where:
  "g_state g \<noteq> Completed \<Longrightarrow> g_iterator g = xs \<Longrightarrow>
   toArray_loop where_next g acc =
     Some (acc @ indexedFilter (w_predicate g) xs (where_start g),
           g\<lparr>g_iterator := [], g_state := Completed, w_index := where_start g + length xs\<rparr>)"
proof (induction xs arbitrary: g acc)
  case Nil
  then show ?case
    by (simp add: toArray_loop_done where_next_Nil)
next
  case (Cons x xs)
  let ?g = "g\<lparr>g_iterator := xs, g_state := SuspendedYield, w_index := where_start g\<rparr>"
  have g': "g_state ?g \<noteq> Completed" "g_iterator ?g = xs" "where_start ?g = where_start g + 1"
    "w_predicate ?g = w_predicate g"
    by (simp_all add: where_start_def)
  show ?case
  proof (cases "w_predicate g x (where_start g)")
    case True
    with Cons.prems have "where_next g = (Some x, ?g)"
      by (simp add: where_next_yield)
    then have "toArray_loop where_next g acc = toArray_loop where_next ?g (acc @ [x])"
      by (simp add: toArray_loop_item)
    with True show ?thesis
      by (simp add: Cons.IH [OF g'(1,2)] g')
  next
    case False
    with Cons.prems have "where_next g = where_next ?g"
      by (simp add: where_next_skip)
    then have "toArray_loop where_next g acc = toArray_loop where_next ?g acc"
      by (rule toArray_loop_same_next)
    with False show ?thesis
      by (simp add: Cons.IH [OF g'(1,2)] g')
  qed
qed

lemma toArray_loop_where_Completed:
  "g_state g = Completed \<Longrightarrow> toArray_loop where_next g acc = Some (acc, g)"
  by (simp add: toArray_loop_done where_next_Completed)

lemma indexedFilter_zip:
  "indexedFilter p xs i = map fst (filter (\<lambda>(x, j). p x j) (zip xs [i ..< i + length xs]))"
proof (induction xs arbitrary: i)
  case Nil
  then show ?case by simp
next
  case (Cons x xs)
  have "[i ..< i + length (x # xs)] = i # [i + 1 ..< (i + 1) + length xs]"
    by (simp add: upt_rec)
  then show ?case
    by (simp add: Cons.IH)
qed

lemma toArray_where:
  "toArray where_next (where_linq src p) =
     Some (map fst (filter (\<lambda>(x, i). p x i) (zip src [0 ..< length src])))"
  by (simp add: toArray_def where_linq_def toArray_loop_where where_start_def indexedFilter_zip)

lemma traverseTwice_where:
  "traverseTwice where_next (where_linq src p) =
     Some (map fst (filter (\<lambda>(x, i). p x i) (zip src [0 ..< length src])), [])"
  by (simp add: traverseTwice_def where_linq_def toArray_loop_where where_start_def
      indexedFilter_zip toArray_loop_where_Completed)

lemma forOf_break_where_Completed: "g_state (forOf_break where_next g) = Completed"
proof (cases "g_state g = Completed")
  case True
  then show ?thesis by (simp add: forOf_break_def where_next_Completed)
next
  case False
  show ?thesis
  proof (cases "fst (where_next g)")
    case None
    with False show ?thesis
      by (cases "g_state g")
        (auto simp: forOf_break_def where_next_def where_resume_def split: prod.splits option.splits)
  next
    case (Some item)
    then show ?thesis by (simp add: forOf_break_def Generator_return_def)
  qed
qed

lemma abandonThenTraverse_where:
  "abandonThenTraverse where_next (where_linq src p) = Some []"
  by (simp add: abandonThenTraverse_def toArray_def toArray_loop_where_Completed
      forOf_break_where_Completed)

text \<open>
  Claim C1, as the code has it. A \<^verbatim>\<open>where(src, p)\<close> stage over an array is a generator object
  and is used up by its traversal. The first traversal of a newly built stage yields the
  elements of \<open>src\<close> for which \<open>p(item, index)\<close> holds, in order, so two stages built from the
  same arguments yield the same sequence. A second traversal of the same object after a
  completed one yields no element, and so does a traversal of the same object after one
  that was abandoned by \<^verbatim>\<open>break\<close>.
\<close>

theorem where_single_use:
  "toArray where_next (where_linq src p) =
     Some (map fst (filter (\<lambda>(x, i). p x i) (zip src [0 ..< length src])))
   \<and> traverseTwice where_next (where_linq src p) =
     Some (map fst (filter (\<lambda>(x, i). p x i) (zip src [0 ..< length src])), [])
   \<and> abandonThenTraverse where_next (where_linq src p) = Some []"
  by (simp add: toArray_where traverseTwice_where abandonThenTraverse_where)

text \<open>
  Claim C1 as stated fails: the stage \<open>where([1, 2, 3, 4], x => x % 2 === 0)\<close>, built once,
  yields \<open>[2, 4]\<close> when it is traversed first and nothing when it is traversed again.
\<close>

theorem where_retraversal_counterexample:
  "traverseTwice where_next (where_linq [1, 2, 3, 4 :: int] isEven) = Some ([2, 4], [])"
  by (simp add: traverseTwice_where upt_rec isEven_def)

subsection \<open>take and skip\<close>

lemma take_next_Completed: "g_state g = Completed \<Longrightarrow> take_next g = (None, g)"
  by (simp add: take_next_def)

lemma take_next_Nil:
  "g_state g \<noteq> Completed \<Longrightarrow> g_iterator g = [] \<Longrightarrow>
   take_next g = (None, g\<lparr>g_state := Completed, s_index := slice_start g\<rparr>)"
  by (cases "g_state g") (simp_all add: take_next_def take_resume_def slice_start_def)

lemma take_next_yield:
  "g_state g \<noteq> Completed \<Longrightarrow> g_iterator g = x # xs \<Longrightarrow> int (slice_start g) < s_count g \<Longrightarrow>
   take_next g =
     (Some x, g\<lparr>g_iterator := xs, g_state := SuspendedYield, s_index := slice_start g\<rparr>)"
  by (cases "g_state g") (simp_all add: take_next_def take_resume_def slice_start_def)

lemma take_next_break:
  "g_state g \<noteq> Completed \<Longrightarrow> g_iterator g = x # xs \<Longrightarrow> \<not> int (slice_start g) < s_count g \<Longrightarrow>
   take_next g = (None, g\<lparr>g_iterator := xs, g_state := Completed, s_index := slice_start g\<rparr>)"
  by (cases "g_state g") (simp_all add: take_next_def take_resume_def slice_start_def)

lemma toArray_loop_take:
  "g_state g \<noteq> Completed \<Longrightarrow> g_iterator g = xs \<Longrightarrow>
   toArray_loop take_next g acc =
     Some (acc @ take (nat (s_count g - int (slice_start g))) xs,
           g\<lparr>g_iterator := drop (nat (s_count g - int (slice_start g)) + 1) xs,
             g_state := Completed,
             s_index := slice_start g + min (nat (s_count g - int (slice_start g))) (length xs)\<rparr>)"
proof (induction xs arbitrary: g acc)
  case Nil
  then show ?case
    by (simp add: toArray_loop_done take_next_Nil)
next
  case (Cons x xs)
  show ?case
  proof (cases "int (slice_start g) < s_count g")
    case True
    let ?g = "g\<lparr>g_iterator := xs, g_state := SuspendedYield, s_index := slice_start g\<rparr>"
    have g': "g_state ?g \<noteq> Completed" "g_iterator ?g = xs" "slice_start ?g = slice_start g + 1"
      "s_count ?g = s_count g"
      by (simp_all add: slice_start_def)
    define k where "k = nat (s_count g - (1 + int (slice_start g)))"
    have k: "nat (s_count g - int (slice_start g)) = Suc k"
      "nat (s_count g - (1 + int (slice_start g))) = k"
      using True unfolding k_def by linarith+
    from True Cons.prems have "take_next g = (Some x, ?g)"
      by (simp add: take_next_yield)
    then have "toArray_loop take_next g acc = toArray_loop take_next ?g (acc @ [x])"
      by (simp add: toArray_loop_item)
    then show ?thesis
      by (simp add: Cons.IH [OF g'(1,2)] g' k)
  next
    case False
    with Cons.prems have "take_next g =
        (None, g\<lparr>g_iterator := xs, g_state := Completed, s_index := slice_start g\<rparr>)"
      by (simp add: take_next_break)
    with False show ?thesis
      by (simp add: toArray_loop_done)
  qed
qed

lemma toArray_take: "toArray take_next (take_linq A n) = Some (take (nat n) A)"
  by (simp add: toArray_def take_linq_def toArray_loop_take slice_start_def)

lemma pulledByTraversal_take:
  "pulledByTraversal take_next (take_linq A n) = Some (min (length A) (nat n + 1))"
  by (simp add: pulledByTraversal_def pulled_def take_linq_def toArray_loop_take slice_start_def)

lemma skip_next_Nil:
  "g_state g \<noteq> Completed \<Longrightarrow> g_iterator g = [] \<Longrightarrow>
   skip_next g = (None, g\<lparr>g_state := Completed, s_index := slice_start g\<rparr>)"
  by (cases "g_state g") (simp_all add: skip_next_def skip_resume_def slice_start_def)

lemma skip_next_yield:
  "g_state g \<noteq> Completed \<Longrightarrow> g_iterator g = x # xs \<Longrightarrow> s_count g \<le> int (slice_start g) \<Longrightarrow>
   skip_next g =
     (Some x, g\<lparr>g_iterator := xs, g_state := SuspendedYield, s_index := slice_start g\<rparr>)"
  by (cases "g_state g") (simp_all add: skip_next_def skip_resume_def slice_start_def)

lemma skip_next_skip:
  "g_state g \<noteq> Completed \<Longrightarrow> g_iterator g = x # xs \<Longrightarrow> \<not> s_count g \<le> int (slice_start g) \<Longrightarrow>
   skip_next g =
     skip_next (g\<lparr>g_iterator := xs, g_state := SuspendedYield, s_index := slice_start g\<rparr>)"
  by (cases "g_state g")
    (simp_all add: skip_next_def skip_resume_def slice_start_def split: prod.split option.split)

lemma toArray_loop_skip:
  "g_state g \<noteq> Completed \<Longrightarrow> g_iterator g = xs \<Longrightarrow>
   toArray_loop skip_next g acc =
     Some (acc @ drop (nat (s_count g - int (slice_start g))) xs,
           g\<lparr>g_iterator := [], g_state := Completed, s_index := slice_start g + length xs\<rparr>)"
proof (induction xs arbitrary: g acc)
  case Nil
  then show ?case
    by (simp add: toArray_loop_done skip_next_Nil)
next
  case (Cons x xs)
  let ?g = "g\<lparr>g_iterator := xs, g_state := SuspendedYield, s_index := slice_start g\<rparr>"
  have g': "g_state ?g \<noteq> Completed" "g_iterator ?g = xs" "slice_start ?g = slice_start g + 1"
    "s_count ?g = s_count g"
    by (simp_all add: slice_start_def)
  show ?case
  proof (cases "s_count g \<le> int (slice_start g)")
    case True
    with Cons.prems have "skip_next g = (Some x, ?g)"
      by (simp add: skip_next_yield)
    then have "toArray_loop skip_next g acc = toArray_loop skip_next ?g (acc @ [x])"
      by (simp add: toArray_loop_item)
    with True show ?thesis
      by (simp add: Cons.IH [OF g'(1,2)] g')
  next
    case False
    define k where "k = nat (s_count g - (1 + int (slice_start g)))"
    have k: "nat (s_count g - int (slice_start g)) = Suc k"
      "nat (s_count g - (1 + int (slice_start g))) = k"
      using False unfolding k_def by linarith+
    from False Cons.prems have "skip_next g = skip_next ?g"
      by (simp add: skip_next_skip)
    then have "toArray_loop skip_next g acc = toArray_loop skip_next ?g acc"
      by (rule toArray_loop_same_next)
    then show ?thesis
      by (simp add: Cons.IH [OF g'(1,2)] g' k)
  qed
qed

lemma toArray_skip: "toArray skip_next (skip_linq A n) = Some (drop (nat n) A)"
  by (simp add: toArray_def skip_linq_def toArray_loop_skip slice_start_def)

text \<open>
  Claim C9: for every array \<open>A\<close> and integer \<open>n\<close> with \<open>0 \<le> n \<le> |A|\<close>, the traversals of
  \<^verbatim>\<open>take(A, n)\<close> and of \<^verbatim>\<open>skip(A, n)\<close> both end, and the array of the first followed by the array
  of the second is \<open>A\<close>.
\<close>

theorem take_skip_complement:
  "0 \<le> n \<Longrightarrow> n \<le> int (length A) \<Longrightarrow>
   \<exists>xs ys. toArray take_next (take_linq A n) = Some xs
     \<and> toArray skip_next (skip_linq A n) = Some ys
     \<and> xs @ ys = A"
  by (simp add: toArray_take toArray_skip)

text \<open>The statement at \<open>A = [10, 20, 30]\<close> and \<open>n = 2\<close>.\<close>

theorem take_skip_complement_witness:
  "\<exists>xs ys. toArray take_next (take_linq [10, 20, 30 :: int] 2) = Some xs
     \<and> toArray skip_next (skip_linq [10, 20, 30 :: int] 2) = Some ys
     \<and> xs @ ys = [10, 20, 30]"
  using take_skip_complement [of 2 "[10, 20, 30 :: int]"] by simp

text \<open>
  Claim C3 at \<^verbatim>\<open>take([1, 2, 3], 0)\<close>: building the stage pulls nothing, but its traversal,
  which yields nothing, has pulled one element from the source, where the claim says none. In general the traversal of \<^verbatim>\<open>take(A, n)\<close> pulls
  \<open>n + 1\<close> elements when \<open>A\<close> has that many (\<open>pulledByTraversal_take\<close>).
\<close>

theorem take_zero_pulls_one:
  "g_state (take_linq [1, 2, 3 :: int] 0) = SuspendedStart
   \<and> pulled (take_linq [1, 2, 3 :: int] 0) = 0
   \<and> toArray take_next (take_linq [1, 2, 3 :: int] 0) = Some []
   \<and> pulledByTraversal take_next (take_linq [1, 2, 3 :: int] 0) = Some 1"
proof -
  have "g_state (take_linq [1, 2, 3 :: int] 0) = SuspendedStart"
    "pulled (take_linq [1, 2, 3 :: int] 0) = 0"
    by (simp_all add: take_linq_def pulled_def)
  then show ?thesis
    by (simp add: toArray_take pulledByTraversal_take)
qed

subsection \<open>distinct and distinctHash\<close>

lemma distinct_next_Nil:
  "g_state g \<noteq> Completed \<Longrightarrow> g_iterator g = [] \<Longrightarrow>
   distinct_next g = (None, g\<lparr>g_state := Completed\<rparr>)"
  by (cases "g_state g") (simp_all add: distinct_next_def distinct_resume_def)

lemma distinct_next_yield:
  "g_state g \<noteq> Completed \<Longrightarrow> g_iterator g = x # xs \<Longrightarrow>
   \<not> contains (d_iteratedElements g) x (d_comparer g) \<Longrightarrow>
   distinct_next g =
     (Some x, g\<lparr>g_iterator := xs, g_state := SuspendedYield,
                d_iteratedElements := d_iteratedElements g @ [x]\<rparr>)"
  by (cases "g_state g") (simp_all add: distinct_next_def distinct_resume_def)

lemma distinct_next_skip:
  "g_state g \<noteq> Completed \<Longrightarrow> g_iterator g = x # xs \<Longrightarrow>
   contains (d_iteratedElements g) x (d_comparer g) \<Longrightarrow>
   distinct_next g = distinct_next (g\<lparr>g_iterator := xs, g_state := SuspendedYield\<rparr>)"
  by (cases "g_state g")
    (simp_all add: distinct_next_def distinct_resume_def split: prod.split option.split)

lemma toArray_loop_distinct:
  "g_state g \<noteq> Completed \<Longrightarrow> g_iterator g = xs \<Longrightarrow>
   map_option fst (toArray_loop distinct_next g acc) =
     Some (acc @ distinctFrom (d_comparer g) (d_iteratedElements g) xs)"
proof (induction xs arbitrary: g acc)
  case Nil
  then show ?case
    by (simp add: toArray_loop_done distinct_next_Nil)
next
  case (Cons x xs)
  show ?case
  proof (cases "contains (d_iteratedElements g) x (d_comparer g)")
    case True
    let ?g = "g\<lparr>g_iterator := xs, g_state := SuspendedYield\<rparr>"
    have g': "g_state ?g \<noteq> Completed" "g_iterator ?g = xs"
      by simp_all
    from True Cons.prems have "distinct_next g = distinct_next ?g"
      by (simp add: distinct_next_skip)
    then have "toArray_loop distinct_next g acc = toArray_loop distinct_next ?g acc"
      by (rule toArray_loop_same_next)
    with True show ?thesis
      by (simp add: Cons.IH [OF g'])
  next
    case False
    let ?g = "g\<lparr>g_iterator := xs, g_state := SuspendedYield,
                d_iteratedElements := d_iteratedElements g @ [x]\<rparr>"
    have g': "g_state ?g \<noteq> Completed" "g_iterator ?g = xs"
      by simp_all
    from False Cons.prems have "distinct_next g = (Some x, ?g)"
      by (simp add: distinct_next_yield)
    then have "toArray_loop distinct_next g acc = toArray_loop distinct_next ?g (acc @ [x])"
      by (simp add: toArray_loop_item)
    with False show ?thesis
      by (simp add: Cons.IH [OF g'])
  qed
qed

lemma toArray_distinct:
  "toArray distinct_next (distinct_linq A comparer) = Some (distinctFrom comparer [] A)"
  using toArray_loop_distinct [of "distinct_linq A comparer" A "[]"]
  by (simp add: toArray_def distinct_linq_def)

lemma contains_strictEquals:
  "contains seen v defaultEqualityComparer = (v \<in> set seen \<and> v \<noteq> Number NaN)"
  by (induction seen) (auto simp: defaultEqualityComparer_def strictEquals_def)

lemma distinctFrom_firstOccurrences:
  "Number NaN \<notin> set xs \<Longrightarrow>
   distinctFrom defaultEqualityComparer seen xs = firstOccurrences (set seen) xs"
  by (induction xs arbitrary: seen) (auto simp: contains_strictEquals)

lemma remdups_snoc: "remdups (ys @ [x]) = filter (\<lambda>y. y \<noteq> x) (remdups ys) @ [x]"
  by (induction ys) auto

lemma firstOccurrences_filter:
  "firstOccurrences S xs = rev (remdups (rev (filter (\<lambda>y. y \<notin> S) xs)))"
proof (induction xs arbitrary: S)
  case Nil
  then show ?case by simp
next
  case (Cons x xs)
  show ?case
  proof (cases "x \<in> S")
    case True
    then show ?thesis by (simp add: Cons.IH)
  next
    case False
    let ?F = "filter (\<lambda>y. y \<notin> S) xs"
    have split: "filter (\<lambda>y. y \<notin> insert x S) xs = filter (\<lambda>y. y \<noteq> x) ?F"
      by (induction xs) auto
    have "rev (remdups (rev ?F @ [x])) = x # rev (filter (\<lambda>y. y \<noteq> x) (remdups (rev ?F)))"
      by (simp only: remdups_snoc rev_append rev.simps append.simps)
    also have "filter (\<lambda>y. y \<noteq> x) (remdups (rev ?F)) = remdups (rev (filter (\<lambda>y. y \<noteq> x) ?F))"
      by (simp only: remdups_filter rev_filter)
    finally have "rev (remdups (rev ?F @ [x])) =
        x # rev (remdups (rev (filter (\<lambda>y. y \<notin> insert x S) xs)))"
      by (simp only: split)
    with False show ?thesis
      by (simp add: Cons.IH del: filter_filter)
  qed
qed

lemma firstOccurrences_remdups: "firstOccurrences {} xs = rev (remdups (rev xs))"
  by (simp add: firstOccurrences_filter)

lemma getProperty_Undefined:
  "Undefined \<notin> ran m \<Longrightarrow> (getProperty m k = Undefined) = (k \<notin> dom m)"
  by (auto simp: getProperty_def ran_def split: option.splits)

lemma distinctHash_next_Nil:
  "g_state g \<noteq> Completed \<Longrightarrow> g_iterator g = [] \<Longrightarrow>
   distinctHash_next g = (None, g\<lparr>g_state := Completed\<rparr>)"
  by (cases "g_state g") (simp_all add: distinctHash_next_def distinctHash_resume_def)

lemma distinctHash_next_yield:
  "g_state g \<noteq> Completed \<Longrightarrow> g_iterator g = x # xs \<Longrightarrow>
   getProperty (h_iteratedElements g) (h_hash g x) = Undefined \<Longrightarrow>
   distinctHash_next g =
     (Some x, g\<lparr>g_iterator := xs, g_state := SuspendedYield,
                h_iteratedElements := (h_iteratedElements g)(h_hash g x \<mapsto> x)\<rparr>)"
  by (cases "g_state g") (simp_all add: distinctHash_next_def distinctHash_resume_def)

lemma distinctHash_next_skip:
  "g_state g \<noteq> Completed \<Longrightarrow> g_iterator g = x # xs \<Longrightarrow>
   getProperty (h_iteratedElements g) (h_hash g x) \<noteq> Undefined \<Longrightarrow>
   distinctHash_next g = distinctHash_next (g\<lparr>g_iterator := xs, g_state := SuspendedYield\<rparr>)"
  by (cases "g_state g")
    (simp_all add: distinctHash_next_def distinctHash_resume_def split: prod.split option.split)

lemma toArray_loop_distinctHash:
  "g_state g \<noteq> Completed \<Longrightarrow> g_iterator g = xs \<Longrightarrow>
   inj_on (h_hash g) (S \<union> set xs) \<Longrightarrow> dom (h_iteratedElements g) = h_hash g ` S \<Longrightarrow>
   Undefined \<notin> ran (h_iteratedElements g) \<Longrightarrow> Undefined \<notin> set xs \<Longrightarrow>
   map_option fst (toArray_loop distinctHash_next g acc) = Some (acc @ firstOccurrences S xs)"
proof (induction xs arbitrary: g acc S)
  case Nil
  then show ?case
    by (simp add: toArray_loop_done distinctHash_next_Nil)
next
  case (Cons x xs)
  from Cons.prems have seen: "(getProperty (h_iteratedElements g) (h_hash g x) = Undefined) = (x \<notin> S)"
    by (auto simp: getProperty_Undefined inj_on_def)
  show ?case
  proof (cases "x \<in> S")
    case True
    let ?g = "g\<lparr>g_iterator := xs, g_state := SuspendedYield\<rparr>"
    from True seen Cons.prems have "distinctHash_next g = distinctHash_next ?g"
      by (simp add: distinctHash_next_skip)
    then have "toArray_loop distinctHash_next g acc = toArray_loop distinctHash_next ?g acc"
      by (rule toArray_loop_same_next)
    moreover have "map_option fst (toArray_loop distinctHash_next ?g acc) =
        Some (acc @ firstOccurrences S xs)"
    proof (rule Cons.IH)
      show "inj_on (h_hash ?g) (S \<union> set xs)"
        using Cons.prems(3) by (auto simp: inj_on_def)
    qed (use Cons.prems in simp_all)
    ultimately show ?thesis using True by simp
  next
    case False
    let ?g = "g\<lparr>g_iterator := xs, g_state := SuspendedYield,
                h_iteratedElements := (h_iteratedElements g)(h_hash g x \<mapsto> x)\<rparr>"
    from False seen Cons.prems have "distinctHash_next g = (Some x, ?g)"
      by (simp add: distinctHash_next_yield)
    then have "toArray_loop distinctHash_next g acc =
        toArray_loop distinctHash_next ?g (acc @ [x])"
      by (simp add: toArray_loop_item)
    moreover have "map_option fst (toArray_loop distinctHash_next ?g (acc @ [x])) =
        Some ((acc @ [x]) @ firstOccurrences (insert x S) xs)"
    proof (rule Cons.IH)
      show "inj_on (h_hash ?g) (insert x S \<union> set xs)"
        using Cons.prems(3) by (auto simp: inj_on_def)
      show "dom (h_iteratedElements ?g) = h_hash ?g ` insert x S"
        using Cons.prems(4) by simp
      show "Undefined \<notin> ran (h_iteratedElements ?g)"
        using Cons.prems(5,6) by (auto simp: ran_def)
    qed (use Cons.prems in simp_all)
    ultimately show ?thesis using False by simp
  qed
qed

lemma toArray_distinctHash:
  "inj_on hash (set A) \<Longrightarrow> Undefined \<notin> set A \<Longrightarrow>
   toArray distinctHash_next (distinctHash A hash) = Some (firstOccurrences {} A)"
  using toArray_loop_distinctHash [of "distinctHash A hash" A "{}" "[]"]
  by (simp add: toArray_def distinctHash_def)

text \<open>
  Claim C8: for every array \<open>A\<close> of integers and every hash function that agrees with the
  default comparer on \<open>A\<close> (\<open>hash(a) = hash(b)\<close> exactly when \<open>a === b\<close>), the traversals of
  \<^verbatim>\<open>distinct(A)\<close> and \<^verbatim>\<open>distinctHash(A, hash)\<close> both end with the same array: every value of \<open>A\<close>
  once, in the order of first occurrence.
\<close>

theorem distinct_distinctHash_agree:
  "set A \<subseteq> range int_val \<Longrightarrow>
   \<forall>a\<in>set A. \<forall>b\<in>set A. (hash a = hash b) = defaultEqualityComparer a b \<Longrightarrow>
   toArray distinct_next (distinct_linq A defaultEqualityComparer) =
     toArray distinctHash_next (distinctHash A hash)
   \<and> toArray distinctHash_next (distinctHash A hash) = Some (rev (remdups (rev A)))"
proof -
  assume ints: "set A \<subseteq> range int_val"
    and compat: "\<forall>a\<in>set A. \<forall>b\<in>set A. (hash a = hash b) = defaultEqualityComparer a b"
  from ints have no_nan: "Number NaN \<notin> set A" and no_undef: "Undefined \<notin> set A"
    by auto
  from compat have "inj_on hash (set A)"
    by (auto simp: inj_on_def defaultEqualityComparer_def strictEquals_def)
  then have "toArray distinctHash_next (distinctHash A hash) = Some (firstOccurrences {} A)"
    using no_undef by (rule toArray_distinctHash)
  moreover from no_nan
  have "toArray distinct_next (distinct_linq A defaultEqualityComparer) = Some (firstOccurrences {} A)"
    by (simp add: toArray_distinct distinctFrom_firstOccurrences)
  ultimately show ?thesis
    by (simp add: firstOccurrences_remdups)
qed

text \<open>The statement at \<open>A = [1, 2, 1, 3]\<close>, hashed by the number itself.\<close>

theorem distinct_distinctHash_agree_witness:
  "toArray distinct_next (distinct_linq [int_val 1, int_val 2, int_val 1, int_val 3] defaultEqualityComparer) =
     Some [int_val 1, int_val 2, int_val 3]
   \<and> toArray distinctHash_next
       (distinctHash [int_val 1, int_val 2, int_val 1, int_val 3]
          (\<lambda>e. case e of Number n \<Rightarrow> n | _ \<Rightarrow> NaN)) =
     Some [int_val 1, int_val 2, int_val 3]"
proof -
  have ints: "set [int_val 1, int_val 2, int_val 1, int_val 3] \<subseteq> range int_val"
    by simp
  have compat: "\<forall>a\<in>set [int_val 1, int_val 2, int_val 1, int_val 3].
      \<forall>b\<in>set [int_val 1, int_val 2, int_val 1, int_val 3].
        ((case a of Number n \<Rightarrow> n | _ \<Rightarrow> NaN) = (case b of Number n \<Rightarrow> n | _ \<Rightarrow> NaN)) =
        defaultEqualityComparer a b"
    by (simp add: defaultEqualityComparer_def strictEquals_def)
  from distinct_distinctHash_agree [OF ints compat] show ?thesis
    by simp
qed

subsection \<open>The fluent wrapper\<close>

text \<open>
  Claim C2 at \<open>s = [1, 2, 3]\<close>: \<^verbatim>\<open>L(s).count(x => x > 1)\<close> is \<open>3\<close> where \<^verbatim>\<open>count(s, x => x > 1)\<close> is
  \<open>2\<close>, and \<^verbatim>\<open>L(s).distinct((a, b) => true)\<close> yields \<open>[1, 2, 3]\<close> where
  \<^verbatim>\<open>distinct(s, (a, b) => true)\<close> yields \<open>[1]\<close>.
\<close>

theorem wrapper_drops_arguments:
  "LinqWrapper_count (L [1, 2, 3 :: int]) (\<lambda>x. 1 < x) = 3
   \<and> count_linq [1, 2, 3 :: int] (\<lambda>x. 1 < x) = 2
   \<and> LinqWrapper_toArray distinct_next
       (LinqWrapper_distinct (L [int_val 1, int_val 2, int_val 3]) (\<lambda>a b. True)) =
       Some [int_val 1, int_val 2, int_val 3]
   \<and> toArray distinct_next (distinct_linq [int_val 1, int_val 2, int_val 3] (\<lambda>a b. True)) =
       Some [int_val 1]"
  by (simp add: LinqWrapper_count_def LinqWrapper_distinct_def LinqWrapper_toArray_def L_def
      count_linq_def defaultPredicate_def toArray_distinct contains_strictEquals)

end
